theory Spec2Isabelle
  imports Main
begin

section \<open>JavaScript values that reach the hop budget\<close>

text \<open>
  \<open>lookupRawSymbol\<close> receives \<open>doAnalyze\<close> as \<open>true\<close>, \<open>false\<close>, a number,
  nothing at all or, from the diagram sheet and the doodler, an options object such as
  \<open>{ analysisMode: 'context' }\<close>, and \<open>ensureSymbolAnalysis\<close> computes with whatever
  arrives:
  \<open>Math.min(2, analyzeHops)\<close>, \<open>symInfo.analyzed < clampedLevel\<close>,
  \<open>analyzeHops - 1\<close> and the truthiness tests \<open>if (doAnalyze)\<close>,
  \<open>if (symInfo.analyzed)\<close>. The values are modelled with JavaScript's coercions
  written out. Hop counts are integers; \<open>NaN\<close> is what \<open>undefined\<close> and a plain
  object coerce to, and an object is truthy.
\<close>

datatype jsval = JUndefined | JBool bool | JNum int | JNaN | JObject

fun truthy :: "jsval \<Rightarrow> bool" where
  "truthy JUndefined = False"
| "truthy (JBool b) = b"
| "truthy (JNum n) = (n \<noteq> 0)"
| "truthy JNaN = False"
| "truthy JObject = True"

fun toNumber :: "jsval \<Rightarrow> int option" where
  "toNumber JUndefined = None"
| "toNumber (JBool b) = Some (if b then 1 else 0)"
| "toNumber (JNum n) = Some n"
| "toNumber JNaN = None"
| "toNumber JObject = None"

text \<open>\<open>Math.min(2, v)\<close>: \<open>NaN\<close> as soon as \<open>v\<close> is not a number.\<close>

definition math_min2 :: "jsval \<Rightarrow> jsval" where
  "math_min2 v = (case toNumber v of None \<Rightarrow> JNaN | Some n \<Rightarrow> JNum (min 2 n))"

text \<open>\<open>a < b\<close>: false as soon as one side is \<open>NaN\<close>.\<close>

definition js_lt :: "jsval \<Rightarrow> jsval \<Rightarrow> bool" where
  "js_lt a b = (case toNumber a of None \<Rightarrow> False
                | Some x \<Rightarrow> (case toNumber b of None \<Rightarrow> False | Some y \<Rightarrow> x < y))"

text \<open>\<open>v - 1\<close>.\<close>

definition js_minus1 :: "jsval \<Rightarrow> jsval" where
  "js_minus1 v = (case toNumber v of None \<Rightarrow> JNaN | Some n \<Rightarrow> JNum (n - 1))"

text \<open>A string in a boolean position: \<open>undefined\<close>, \<open>null\<close> and \<open>""\<close> are falsy.\<close>

definition str_truthy :: "string option \<Rightarrow> bool" where
  "str_truthy v = (case v of None \<Rightarrow> False | Some s \<Rightarrow> s \<noteq> [])"

text \<open>
  A \<open>for (const x of xs)\<close> loop whose body updates a state: the body runs on each
  element in order, each round on the state the round before left.
\<close>

fun for_of :: "('a \<Rightarrow> 's \<Rightarrow> 's) \<Rightarrow> 'a list \<Rightarrow> 's \<Rightarrow> 's" where
  "for_of body [] s = s"
| "for_of body (x # xs) s = for_of body xs (body x s)"

section \<open>normalizeSymbol\<close>

text \<open>
  \<open>normalizeSymbol(symStr, commaExpected)\<close>: \<open>null\<close> for a falsy argument, the text
  before the first comma (\<open>symStr.split(',', 1)[0]\<close>) when there is a comma, the
  argument itself otherwise. \<open>commaExpected\<close> only decides whether
  \<open>console.error\<close> is called and is left out.
\<close>

definition normalizeSymbol :: "string option \<Rightarrow> string option" where
  "normalizeSymbol symStr =
     (case symStr of
        None \<Rightarrow> None
      | Some s \<Rightarrow>
          if s = [] then None
          else if CHR '','' \<in> set s then Some (takeWhile (\<lambda>c. c \<noteq> CHR '','') s)
          else Some s)"

section \<open>The knowledge base\<close>

text \<open>
  Modelled from the spec: the class \<open>SymbolInfo\<close> (\<open>kb/symbol_info.js\<close>) is not
  among the sources. The knowledge base reads and writes the fields below; a fresh
  instance is unanalyzed (\<open>analyzed\<close> and \<open>analyzing\<close> falsy) and has empty edge
  sets. A \<open>SymbolInfo\<close> object is identified by its position in the list
  \<open>symbols\<close> of the knowledge base, which plays the part of the heap: two
  references are the same object exactly when they are the same index.
  \<open>outEdges\<close> and \<open>inEdges\<close> are JavaScript \<open>Set\<close>s, kept as duplicate-free
  lists in insertion order. The path hints, the syntax kind, the \<open>FileInfo\<close>
  back-references and the dirty serial take no part in what follows and are left
  out.
\<close>

record symbol_info =
  rawName :: "string option"
  prettyName :: "string option"
  analyzed :: jsval
  analyzing :: bool
  outEdges :: "nat list"
  inEdges :: "nat list"

definition new_SymbolInfo :: "string option \<Rightarrow> string option \<Rightarrow> symbol_info" where
  "new_SymbolInfo rn pn =
     \<lparr>rawName = rn, prettyName = pn, analyzed = JBool False, analyzing = False,
      outEdges = [], inEdges = []\<rparr>"

text \<open>
  The state of a \<open>KnowledgeBase\<close>: the \<open>SymbolInfo\<close> objects, the map
  \<open>symbolsByRawName\<close>, the set \<open>analyzingSymbols\<close>, and two views of the search
  backend: \<open>searchLog\<close> holds every query handed to \<open>grokCtx.performSearch\<close>, in
  order, and \<open>inflight\<close> holds the suspended calls of \<open>_analyzeSymbol\<close> that wait
  for their search to resolve, each with its symbol and its \<open>analyzeHops\<close>.
\<close>

record knowledge_base =
  symbols :: "symbol_info list"
  symbolsByRawName :: "string option \<rightharpoonup> nat"
  analyzingSymbols :: "nat list"
  inflight :: "(nat \<times> jsval) list"
  searchLog :: "string list"

definition new_KnowledgeBase :: knowledge_base where
  "new_KnowledgeBase =
     \<lparr>symbols = [], symbolsByRawName = Map.empty, analyzingSymbols = [],
      inflight = [], searchLog = []\<rparr>"

definition EDGE_SANITY_LIMIT :: nat where
  "EDGE_SANITY_LIMIT = 32"

text \<open>\<open>Set.prototype.add\<close> and \<open>Set.prototype.delete\<close> on the list form.\<close>

definition set_add :: "'a \<Rightarrow> 'a list \<Rightarrow> 'a list" where
  "set_add x xs = (if x \<in> set xs then xs else xs @ [x])"

definition set_delete :: "'a \<Rightarrow> 'a list \<Rightarrow> 'a list" where
  "set_delete x xs = filter (\<lambda>y. y \<noteq> x) xs"

text \<open>A write to the fields of the object behind a reference.\<close>

definition update_symbol :: "nat \<Rightarrow> (symbol_info \<Rightarrow> symbol_info) \<Rightarrow> knowledge_base \<Rightarrow> knowledge_base" where
  "update_symbol s f kb = kb\<lparr>symbols := (symbols kb)[s := f (symbols kb ! s)]\<rparr>"

definition set_analyzed :: "nat \<Rightarrow> jsval \<Rightarrow> knowledge_base \<Rightarrow> knowledge_base" where
  "set_analyzed s v kb = update_symbol s (\<lambda>si. si\<lparr>analyzed := v\<rparr>) kb"

text \<open>The query string \<open>`symbol:${symInfo.rawName}`\<close>.\<close>

definition search_query :: "string option \<Rightarrow> string" where
  "search_query rn = ''symbol:'' @ (case rn of None \<Rightarrow> ''null'' | Some n \<Rightarrow> n)"

text \<open>
  The last branch of \<open>ensureSymbolAnalysis\<close> up to its \<open>await\<close>: the call of
  \<open>_analyzeSymbol\<close> runs until it has handed the query to \<open>performSearch\<close> and
  suspends; the pending promise is stored in \<open>symInfo.analyzing\<close> and the symbol is
  added to \<open>analyzingSymbols\<close>.
\<close>

definition start_analysis :: "nat \<Rightarrow> jsval \<Rightarrow> knowledge_base \<Rightarrow> knowledge_base" where
  "start_analysis s h kb =
     (update_symbol s (\<lambda>si. si\<lparr>analyzing := True\<rparr>) kb)
       \<lparr>searchLog := searchLog kb @ [search_query (rawName (symbols kb ! s))],
        inflight := inflight kb @ [(s, h)],
        analyzingSymbols := set_add s (analyzingSymbols kb)\<rparr>"

text \<open>
  How far the numeric levels of a knowledge base are below 2, summed over its symbols:
  the quantity that every level bump of \<open>ensureSymbolAnalysis\<close> lowers.
\<close>

definition level_gap :: "symbol_info \<Rightarrow> nat" where
  "level_gap si = (case toNumber (analyzed si) of None \<Rightarrow> 0 | Some n \<Rightarrow> nat (2 - n))"

definition total_gap :: "knowledge_base \<Rightarrow> nat" where
  "total_gap kb = sum_list (map level_gap (symbols kb))"

text \<open>
  \<open>ensureSymbolAnalysis(symInfo, analyzeHops)\<close>, the part that runs before the call
  returns to its caller. \<open>ensureEach\<close> is the loop
  \<open>for (let otherSym of edges) this.ensureSymbolAnalysis(otherSym, hops)\<close>.
  A reference outside \<open>symbols\<close> is no object of the knowledge base; the call
  leaves the state as it is.
\<close>

function ensureSymbolAnalysis :: "nat \<Rightarrow> jsval \<Rightarrow> knowledge_base \<Rightarrow> knowledge_base"
  and ensureEach :: "nat list \<Rightarrow> jsval \<Rightarrow> knowledge_base \<Rightarrow> knowledge_base"
where
  "ensureSymbolAnalysis s h kb =
     (if \<not> s < length (symbols kb) then kb
      else if truthy (analyzed (symbols kb ! s)) then
        (if js_lt (analyzed (symbols kb ! s)) (math_min2 h) then
           (let kb1 = set_analyzed s (math_min2 h) kb;
                kb2 = (if length (outEdges (symbols kb1 ! s)) < EDGE_SANITY_LIMIT
                       then ensureEach (outEdges (symbols kb1 ! s)) (js_minus1 h) kb1
                       else kb1)
            in (if length (inEdges (symbols kb2 ! s)) < EDGE_SANITY_LIMIT
                then ensureEach (inEdges (symbols kb2 ! s)) (js_minus1 h) kb2
                else kb2))
         else kb)
      else if analyzing (symbols kb ! s) then kb
      else start_analysis s h kb)"
| "ensureEach [] h kb = kb"
| "ensureEach (x # xs) h kb = ensureEach xs h (ensureSymbolAnalysis x h kb)"
  by pat_completeness auto

lemma sum_list_map_update_less:
  fixes f :: "'a \<Rightarrow> nat"
  shows "i < length xs \<Longrightarrow> f v < f (xs ! i) \<Longrightarrow>
         sum_list (map f (xs[i := v])) < sum_list (map f xs)"
proof (induction xs arbitrary: i)
  case Nil
  then show ?case by simp
next
  case (Cons a xs)
  then show ?case by (cases i) auto
qed

lemma map_update_same:
  "f v = f (xs ! i) \<Longrightarrow> map f (xs[i := v]) = map f xs"
proof (induction xs arbitrary: i)
  case Nil
  then show ?case by simp
next
  case (Cons a xs)
  then show ?case by (cases i) auto
qed

lemma update_symbol_fields [simp]:
  "symbolsByRawName (update_symbol s f kb) = symbolsByRawName kb"
  "analyzingSymbols (update_symbol s f kb) = analyzingSymbols kb"
  "inflight (update_symbol s f kb) = inflight kb"
  "searchLog (update_symbol s f kb) = searchLog kb"
  "length (symbols (update_symbol s f kb)) = length (symbols kb)"
  by (simp_all add: update_symbol_def)

lemma update_symbol_nth:
  "symbols (update_symbol s f kb) ! a =
     (if a = s \<and> s < length (symbols kb) then f (symbols kb ! s) else symbols kb ! a)"
  by (cases "s < length (symbols kb)") (auto simp: update_symbol_def nth_list_update list_update_beyond not_less)

lemma update_symbol_map_same:
  "g (f (symbols kb ! s)) = g (symbols kb ! s) \<Longrightarrow>
   map g (symbols (update_symbol s f kb)) = map g (symbols kb)"
  unfolding update_symbol_def by (simp add: map_update_same del: map_update)

lemma total_gap_set_analyzed:
  assumes "s < length (symbols kb)" "js_lt (analyzed (symbols kb ! s)) (math_min2 h)"
  shows "total_gap (set_analyzed s (math_min2 h) kb) < total_gap kb"
proof -
  let ?xs = "symbols kb"
  let ?si = "?xs ! s"
  have lt: "level_gap (?si\<lparr>analyzed := math_min2 h\<rparr>) < level_gap ?si"
    using assms(2) by (auto simp: level_gap_def js_lt_def math_min2_def split: option.splits)
  have "sum_list (map level_gap (?xs[s := ?si\<lparr>analyzed := math_min2 h\<rparr>]))
          < sum_list (map level_gap ?xs)"
    using assms(1) lt by (rule sum_list_map_update_less)
  thus ?thesis by (simp add: total_gap_def set_analyzed_def update_symbol_def del: map_update)
qed

lemma total_gap_start_analysis: "total_gap (start_analysis s h kb) = total_gap kb"
proof -
  have "map level_gap (symbols (update_symbol s (\<lambda>si. si\<lparr>analyzing := True\<rparr>) kb))
          = map level_gap (symbols kb)"
    by (rule update_symbol_map_same) (simp add: level_gap_def)
  thus ?thesis by (simp add: total_gap_def start_analysis_def)
qed

lemma ensure_gap_partial:
  "ensureSymbolAnalysis_ensureEach_dom (Inl (s, h, kb)) \<Longrightarrow>
     total_gap (ensureSymbolAnalysis s h kb) \<le> total_gap kb"
  "ensureSymbolAnalysis_ensureEach_dom (Inr (xs, h', kb')) \<Longrightarrow>
     total_gap (ensureEach xs h' kb') \<le> total_gap kb'"
proof (induct s h kb and xs h' kb' rule: ensureSymbolAnalysis_ensureEach.pinduct)
  case (1 s h kb)
  show ?case
  proof (cases "s < length (symbols kb) \<and> truthy (analyzed (symbols kb ! s))
                 \<and> js_lt (analyzed (symbols kb ! s)) (math_min2 h)")
    case True
    define kb1 where "kb1 = set_analyzed s (math_min2 h) kb"
    define kb2 where "kb2 = (if length (outEdges (symbols kb1 ! s)) < EDGE_SANITY_LIMIT
                       then ensureEach (outEdges (symbols kb1 ! s)) (js_minus1 h) kb1
                       else kb1)"
    define kb3 where "kb3 = (if length (inEdges (symbols kb2 ! s)) < EDGE_SANITY_LIMIT
                then ensureEach (inEdges (symbols kb2 ! s)) (js_minus1 h) kb2
                else kb2)"
    have r: "ensureSymbolAnalysis s h kb = kb3"
      using True 1(1) by (simp add: ensureSymbolAnalysis.psimps kb1_def kb2_def kb3_def Let_def)
    have g1: "total_gap kb1 < total_gap kb"
      using True total_gap_set_analyzed by (simp add: kb1_def)
    have g2: "total_gap kb2 \<le> total_gap kb1"
      using 1(2)[OF _ _ _ kb1_def] True by (simp add: kb2_def)
    have g3: "total_gap kb3 \<le> total_gap kb2"
      using 1(3)[OF _ _ _ kb1_def kb2_def] True by (simp add: kb3_def)
    show ?thesis using r g1 g2 g3 by simp
  next
    case False
    then show ?thesis using 1(1)
      by (auto simp: ensureSymbolAnalysis.psimps total_gap_start_analysis)
  qed
next
  case (2 h kb)
  then show ?case by (simp add: ensureEach.psimps)
next
  case (3 x xs h kb)
  then show ?case by (simp add: ensureEach.psimps)
qed

termination ensureSymbolAnalysis
proof (relation "inv_image (less_than <*lex*> less_than)
     (\<lambda>x. case x of Inl (s, h, kb) \<Rightarrow> (total_gap kb, 0::nat)
                  | Inr (xs, h, kb) \<Rightarrow> (total_gap kb, Suc (length xs)))", goal_cases)
  case 1
  show ?case by (intro wf_inv_image wf_lex_prod wf_less_than)
next
  case (2 s h kb x)
  then show ?case by (simp add: total_gap_set_analyzed)
next
  case (3 s h kb x xa)
  have "total_gap x < total_gap kb" using 3 by (simp add: total_gap_set_analyzed)
  moreover have "total_gap xa \<le> total_gap x"
    using 3 by (auto dest: ensure_gap_partial(2))
  ultimately show ?case by simp
next
  case (4 x xs h kb)
  then show ?case by simp
next
  case (5 x xs h kb)
  then show ?case by (auto dest: ensure_gap_partial(1))
qed

declare ensureSymbolAnalysis.simps [simp del]


section \<open>lookupRawSymbol\<close>

text \<open>
  Modelled from the spec: \<open>SymbolInfo.updatePrettyNameFrom\<close> is not among the
  sources; the pretty name "may arrive later and be back-filled", so the call stores
  the name it is given.
\<close>

definition updatePrettyNameFrom :: "nat \<Rightarrow> string option \<Rightarrow> knowledge_base \<Rightarrow> knowledge_base" where
  "updatePrettyNameFrom s pn kb = update_symbol s (\<lambda>si. si\<lparr>prettyName := pn\<rparr>) kb"

text \<open>
  \<open>lookupRawSymbol(rawName, doAnalyze, prettyName, opts)\<close> returns the reference
  of the \<open>SymbolInfo\<close> and the new state. In the cached branch the source calls
  \<open>this.ensureSymbolAnalysis(symInfo)\<close> with one argument, so \<open>analyzeHops\<close> is
  \<open>undefined\<close> there. \<open>opts\<close> only carries the hints that the model of
  \<open>SymbolInfo\<close> leaves out.
\<close>

definition lookupRawSymbol ::
  "string option \<Rightarrow> jsval \<Rightarrow> string option \<Rightarrow> knowledge_base \<Rightarrow> nat \<times> knowledge_base" where
  "lookupRawSymbol rawName0 doAnalyze pretty kb =
     (let rawName = normalizeSymbol rawName0 in
      case symbolsByRawName kb rawName of
        Some symInfo \<Rightarrow>
          (let kb1 = (if str_truthy pretty \<and> \<not> str_truthy (prettyName (symbols kb ! symInfo))
                      then updatePrettyNameFrom symInfo pretty kb else kb);
               kb2 = (if truthy doAnalyze then ensureSymbolAnalysis symInfo JUndefined kb1
                      else kb1)
           in (symInfo, kb2))
      | None \<Rightarrow>
          (let symInfo = length (symbols kb);
               kb1 = kb\<lparr>symbols := symbols kb @ [new_SymbolInfo rawName pretty],
                        symbolsByRawName := (symbolsByRawName kb)(rawName \<mapsto> symInfo)\<rparr>;
               kb2 = (if truthy doAnalyze
                      then ensureSymbolAnalysis symInfo
                             (if doAnalyze = JBool True then JNum 1 else doAnalyze) kb1
                      else kb1)
           in (symInfo, kb2)))"

section \<open>_analyzeSymbol\<close>

text \<open>
  The search results as \<open>_analyzeSymbol\<close> reads them: \<open>raw.semantic\<close> is a list of
  entries, each with its \<open>symbol\<close>, its \<open>consumes\<close> array and its \<open>hits\<close>
  dictionary (path kind to use type to an array of \<open>{ path, lines }\<close>). An absent
  \<open>consumes\<close> or \<open>hits\<close> is the empty list. A result without
  \<open>rawResultsList[0].raw\<close> makes the source throw and is not a value of these
  types.
\<close>

record consumed_info =
  c_sym :: "string option"
  c_pretty :: "string option"

record line_result =
  contextsym :: "string option"
  context_pretty :: "string option"

record path_lines =
  path :: string
  lines :: "line_result list"

record raw_sym_info =
  symbol :: string
  consumes :: "consumed_info list"
  hits :: "(string \<times> (string \<times> path_lines list) list) list"

definition add_outEdge :: "nat \<Rightarrow> nat \<Rightarrow> knowledge_base \<Rightarrow> knowledge_base" where
  "add_outEdge a b kb = update_symbol a (\<lambda>si. si\<lparr>outEdges := set_add b (outEdges si)\<rparr>) kb"

definition add_inEdge :: "nat \<Rightarrow> nat \<Rightarrow> knowledge_base \<Rightarrow> knowledge_base" where
  "add_inEdge a b kb = update_symbol a (\<lambda>si. si\<lparr>inEdges := set_add b (inEdges si)\<rparr>) kb"

text \<open>One round of the loop over \<open>rawSymInfo.consumes\<close>.\<close>

definition consume_one :: "nat \<Rightarrow> jsval \<Rightarrow> consumed_info \<Rightarrow> knowledge_base \<Rightarrow> knowledge_base" where
  "consume_one symInfo analyzeHops consumedInfo kb =
     (let (consumedSym, kb1) =
            lookupRawSymbol (normalizeSymbol (c_sym consumedInfo)) (js_minus1 analyzeHops)
              (c_pretty consumedInfo) kb
      in add_inEdge consumedSym symInfo (add_outEdge symInfo consumedSym kb1))"

text \<open>One round of the loop over \<open>pathLines.lines\<close> under the use type \<open>uses\<close>.\<close>

definition use_one :: "nat \<Rightarrow> jsval \<Rightarrow> line_result \<Rightarrow> knowledge_base \<Rightarrow> knowledge_base" where
  "use_one symInfo analyzeHops lineResult kb =
     (if str_truthy (contextsym lineResult) then
        (let (contextSym, kb1) =
               lookupRawSymbol (normalizeSymbol (contextsym lineResult)) (js_minus1 analyzeHops)
                 (context_pretty lineResult) kb
         in add_outEdge contextSym symInfo (add_inEdge symInfo contextSym kb1))
      else kb)"

text \<open>
  One use type of the \<open>hits\<close> dictionary. The branches \<open>defs\<close> and \<open>decls\<close> bind
  \<open>FileInfo\<close> objects, which are not part of the modelled state.
\<close>

definition use_group :: "nat \<Rightarrow> jsval \<Rightarrow> string \<times> path_lines list \<Rightarrow> knowledge_base \<Rightarrow> knowledge_base" where
  "use_group symInfo analyzeHops g kb =
     (case g of (useType, pathLinesArray) \<Rightarrow>
        if useType = ''defs'' then kb
        else if useType = ''decls'' then kb
        else if useType = ''uses'' then
          for_of (\<lambda>pathLines. for_of (use_one symInfo analyzeHops) (lines pathLines))
            pathLinesArray kb
        else kb)"

text \<open>One entry of \<open>raw.semantic\<close>; an entry for another symbol is skipped.\<close>

definition analyze_entry :: "nat \<Rightarrow> jsval \<Rightarrow> raw_sym_info \<Rightarrow> knowledge_base \<Rightarrow> knowledge_base" where
  "analyze_entry symInfo analyzeHops rawSymInfo kb =
     (if Some (symbol rawSymInfo) \<noteq> rawName (symbols kb ! symInfo) then kb
      else
        (let kb1 = for_of (consume_one symInfo analyzeHops) (consumes rawSymInfo) kb
         in for_of (\<lambda>(pathKind, useGroups). for_of (use_group symInfo analyzeHops) useGroups)
              (hits rawSymInfo) kb1))"

text \<open>The body of \<open>_analyzeSymbol\<close> after its \<open>await\<close>, given what the search returned.\<close>

definition analyzeSymbol_resume :: "nat \<Rightarrow> jsval \<Rightarrow> raw_sym_info list \<Rightarrow> knowledge_base \<Rightarrow> knowledge_base" where
  "analyzeSymbol_resume symInfo analyzeHops semantic kb =
     for_of (analyze_entry symInfo analyzeHops) semantic kb"

text \<open>
  The lines of \<open>ensureSymbolAnalysis\<close> after \<open>await symInfo.analyzing\<close>:
  \<open>analyzing\<close> is reset, \<open>analyzed\<close> becomes the clamped level and the symbol
  leaves \<open>analyzingSymbols\<close>.
\<close>

definition finish_analysis :: "nat \<Rightarrow> jsval \<Rightarrow> knowledge_base \<Rightarrow> knowledge_base" where
  "finish_analysis s h kb =
     (update_symbol s (\<lambda>si. si\<lparr>analyzing := False, analyzed := math_min2 h\<rparr>) kb)
       \<lparr>analyzingSymbols := set_delete s (analyzingSymbols kb)\<rparr>"

text \<open>
  The search of the \<open>i\<close>-th suspended call resolves with \<open>semantic\<close>:
  \<open>_analyzeSymbol\<close> runs to its end, \<open>ensureSymbolAnalysis\<close> completes, and the
  call is no longer pending. Calls suspended meanwhile are appended to \<open>inflight\<close>,
  so the position \<open>i\<close> still names the same call at the end.
\<close>

definition complete_analysis ::
  "nat \<Rightarrow> nat \<Rightarrow> jsval \<Rightarrow> raw_sym_info list \<Rightarrow> knowledge_base \<Rightarrow> knowledge_base" where
  "complete_analysis i s h semantic kb =
     (let kb1 = finish_analysis s h (analyzeSymbol_resume s h semantic kb)
      in kb1\<lparr>inflight := take i (inflight kb1) @ drop (Suc i) (inflight kb1)\<rparr>)"

definition searchDone :: "nat \<Rightarrow> raw_sym_info list \<Rightarrow> knowledge_base \<Rightarrow> knowledge_base" where
  "searchDone i semantic kb =
     (if i < length (inflight kb)
      then complete_analysis i (fst (inflight kb ! i)) (snd (inflight kb ! i)) semantic kb
      else kb)"

text \<open>
  What can happen to a knowledge base: a caller looks a raw name up, a caller asks for
  the analysis of a symbol it holds, or a pending search resolves.
\<close>

datatype kb_event =
    Lookup "string option" jsval "string option"
  | Ensure nat jsval
  | SearchDone nat "raw_sym_info list"

fun kb_step :: "kb_event \<Rightarrow> knowledge_base \<Rightarrow> knowledge_base" where
  "kb_step (Lookup rn d pn) kb = snd (lookupRawSymbol rn d pn kb)"
| "kb_step (Ensure s h) kb = ensureSymbolAnalysis s h kb"
| "kb_step (SearchDone i semantic) kb = searchDone i semantic kb"

definition kb_run :: "kb_event list \<Rightarrow> knowledge_base \<Rightarrow> knowledge_base" where
  "kb_run evs kb = for_of kb_step evs kb"


section \<open>What ensureSymbolAnalysis leaves alone\<close>

text \<open>
  A property of the knowledge base that survives a level bump and the start of an
  analysis survives \<open>ensureSymbolAnalysis\<close>, however far the bump cascades.
\<close>

lemma ensure_preserves:
  assumes bump: "\<And>s h kb. P kb \<Longrightarrow> s < length (symbols kb) \<Longrightarrow> truthy (analyzed (symbols kb ! s))
                   \<Longrightarrow> js_lt (analyzed (symbols kb ! s)) (math_min2 h)
                   \<Longrightarrow> P (set_analyzed s (math_min2 h) kb)"
      and start: "\<And>s h kb. P kb \<Longrightarrow> s < length (symbols kb) \<Longrightarrow> \<not> truthy (analyzed (symbols kb ! s))
                   \<Longrightarrow> \<not> analyzing (symbols kb ! s) \<Longrightarrow> P (start_analysis s h kb)"
  shows "P kb \<Longrightarrow> P (ensureSymbolAnalysis s h kb)"
    and "P kb' \<Longrightarrow> P (ensureEach xs h' kb')"
proof (induct s h kb and xs h' kb' rule: ensureSymbolAnalysis_ensureEach.induct)
  case (1 s h kb)
  show ?case
  proof (cases "s < length (symbols kb) \<and> truthy (analyzed (symbols kb ! s))
                 \<and> js_lt (analyzed (symbols kb ! s)) (math_min2 h)")
    case True
    define kb1 where "kb1 = set_analyzed s (math_min2 h) kb"
    define kb2 where "kb2 = (if length (outEdges (symbols kb1 ! s)) < EDGE_SANITY_LIMIT
                       then ensureEach (outEdges (symbols kb1 ! s)) (js_minus1 h) kb1
                       else kb1)"
    define kb3 where "kb3 = (if length (inEdges (symbols kb2 ! s)) < EDGE_SANITY_LIMIT
                then ensureEach (inEdges (symbols kb2 ! s)) (js_minus1 h) kb2
                else kb2)"
    have r: "ensureSymbolAnalysis s h kb = kb3"
      using True by (simp add: ensureSymbolAnalysis.simps kb1_def kb2_def kb3_def Let_def)
    have g1: "P kb1"
      unfolding kb1_def using True "1.prems" by (simp add: bump)
    have g2: "P kb2"
      using 1(1)[OF _ _ _ kb1_def] True g1 by (simp add: kb2_def)
    have g3: "P kb3"
      using 1(2)[OF _ _ _ kb1_def kb2_def] True g2 by (simp add: kb3_def)
    show ?thesis using r g3 by simp
  next
    case False
    then show ?thesis using "1.prems"
      by (auto simp: ensureSymbolAnalysis.simps start)
  qed
next
  case (2 h kb)
  then show ?case by simp
next
  case (3 x xs h kb)
  then show ?case by simp
qed

lemma ensure_byRawName [simp]:
  "symbolsByRawName (ensureSymbolAnalysis s h kb) = symbolsByRawName kb"
  by (rule ensure_preserves(1)[where P = "\<lambda>k. symbolsByRawName k = symbolsByRawName kb"])
     (simp_all add: set_analyzed_def start_analysis_def)

lemma ensure_map_frame:
  assumes a1: "\<And>si v. f (si\<lparr>analyzed := v\<rparr>) = f si"
      and a2: "\<And>si b. f (si\<lparr>analyzing := b\<rparr>) = f si"
  shows "map f (symbols (ensureSymbolAnalysis s h kb)) = map f (symbols kb)"
  by (rule ensure_preserves(1)[where P = "\<lambda>k. map f (symbols k) = map f (symbols kb)"])
     (simp_all add: set_analyzed_def start_analysis_def update_symbol_map_same a1 a2)


section \<open>Symbol identity\<close>

lemma lookup_byRawName_result:
  "symbolsByRawName (snd (lookupRawSymbol r d p kb)) (normalizeSymbol r) = Some (fst (lookupRawSymbol r d p kb))"
  by (auto simp: lookupRawSymbol_def Let_def updatePrettyNameFrom_def split: option.splits)

lemma lookup_byRawName_mono:
  "symbolsByRawName kb k = Some a \<Longrightarrow> symbolsByRawName (snd (lookupRawSymbol r d p kb)) k = Some a"
  by (auto simp: lookupRawSymbol_def Let_def updatePrettyNameFrom_def split: option.splits)

lemma lookup_cached:
  "symbolsByRawName kb (normalizeSymbol r) = Some a \<Longrightarrow> fst (lookupRawSymbol r d p kb) = a"
  by (auto simp: lookupRawSymbol_def Let_def)

lemma consume_one_mono:
  "symbolsByRawName kb k = Some a \<Longrightarrow> symbolsByRawName (consume_one s h ci kb) k = Some a"
  using lookup_byRawName_mono[of kb k a "normalizeSymbol (c_sym ci)" "js_minus1 h" "c_pretty ci"]
  by (auto simp: consume_one_def add_inEdge_def add_outEdge_def split: prod.splits)

lemma use_one_mono:
  "symbolsByRawName kb k = Some a \<Longrightarrow> symbolsByRawName (use_one s h lr kb) k = Some a"
  using lookup_byRawName_mono[of kb k a "normalizeSymbol (contextsym lr)" "js_minus1 h" "context_pretty lr"]
  by (auto simp: use_one_def add_inEdge_def add_outEdge_def split: prod.splits)

lemma for_of_preserves:
  "(\<And>x s. P s \<Longrightarrow> P (f x s)) \<Longrightarrow> P s \<Longrightarrow> P (for_of f xs s)"
  by (induction xs arbitrary: s) auto

lemma use_group_mono:
  "symbolsByRawName kb k = Some a \<Longrightarrow> symbolsByRawName (use_group s h g kb) k = Some a"
  unfolding use_group_def
  by (auto split: prod.splits intro!: for_of_preserves[where P = "\<lambda>kb. symbolsByRawName kb k = Some a"] use_one_mono)

lemma analyze_entry_mono:
  "symbolsByRawName kb k = Some a \<Longrightarrow> symbolsByRawName (analyze_entry s h r kb) k = Some a"
  unfolding analyze_entry_def Let_def
  by (auto split: prod.splits intro!: for_of_preserves[where P = "\<lambda>kb. symbolsByRawName kb k = Some a"] use_group_mono consume_one_mono)

lemma searchDone_mono:
  "symbolsByRawName kb k = Some a \<Longrightarrow> symbolsByRawName (searchDone i sem kb) k = Some a"
  unfolding searchDone_def complete_analysis_def analyzeSymbol_resume_def finish_analysis_def Let_def
  by (auto split: prod.splits intro!: for_of_preserves[where P = "\<lambda>kb. symbolsByRawName kb k = Some a"] analyze_entry_mono)

lemma kb_step_mono:
  "symbolsByRawName kb k = Some a \<Longrightarrow> symbolsByRawName (kb_step e kb) k = Some a"
  by (cases e) (simp_all add: lookup_byRawName_mono searchDone_mono)

lemma kb_run_mono:
  "symbolsByRawName kb k = Some a \<Longrightarrow> symbolsByRawName (kb_run evs kb) k = Some a"
  unfolding kb_run_def by (rule for_of_preserves[where P = "\<lambda>kb. symbolsByRawName kb k = Some a"]) (rule kb_step_mono)

lemma takeWhile_upto_sep:
  "takeWhile (\<lambda>c. c \<noteq> x) (a @ x # b) = takeWhile (\<lambda>c. c \<noteq> x) a"
  by (induction a) auto

lemma normalizeSymbol_comma:
  "a \<noteq> [] \<Longrightarrow> normalizeSymbol (Some (a @ '','' @ b)) = normalizeSymbol (Some a)"
  by (auto simp: normalizeSymbol_def takeWhile_upto_sep takeWhile_eq_all_conv)


text \<open>
  C1. Identity uniqueness: a second \<open>lookupRawSymbol\<close> of the same raw name returns the
  \<open>SymbolInfo\<close> that the first call returned, whatever state the knowledge base was
  in at the first call and whatever lookups, analysis requests and search completions
  happen in between. A comma-delimited name is keyed by the text before its first comma:
  for a non-empty name \<open>a\<close>, looking up \<open>a,b\<close> after \<open>a\<close>, or \<open>a\<close> after
  \<open>a,b\<close>, returns the same \<open>SymbolInfo\<close>.
\<close>

theorem lookupRawSymbol_identity:
  "fst (lookupRawSymbol r d2 p2 (kb_run evs (snd (lookupRawSymbol r d1 p1 kb))))
     = fst (lookupRawSymbol r d1 p1 kb)
   \<and> (a \<noteq> [] \<longrightarrow>
        fst (lookupRawSymbol (Some (a @ '','' @ b)) d2 p2
               (kb_run evs (snd (lookupRawSymbol (Some a) d1 p1 kb))))
          = fst (lookupRawSymbol (Some a) d1 p1 kb)
      \<and> fst (lookupRawSymbol (Some a) d2 p2
               (kb_run evs (snd (lookupRawSymbol (Some (a @ '','' @ b)) d1 p1 kb))))
          = fst (lookupRawSymbol (Some (a @ '','' @ b)) d1 p1 kb))"
proof -
  have same: "fst (lookupRawSymbol r' d2 p2 (kb_run evs (snd (lookupRawSymbol r d1 p1 kb))))
                = fst (lookupRawSymbol r d1 p1 kb)"
    if "normalizeSymbol r' = normalizeSymbol r" for r r'
  proof -
    have "symbolsByRawName (kb_run evs (snd (lookupRawSymbol r d1 p1 kb))) (normalizeSymbol r')
            = Some (fst (lookupRawSymbol r d1 p1 kb))"
      unfolding that by (rule kb_run_mono) (rule lookup_byRawName_result)
    thus ?thesis by (rule lookup_cached)
  qed
  have c1: "normalizeSymbol (Some (a @ '','' @ b)) = normalizeSymbol (Some a)" if "a \<noteq> []"
    using that by (rule normalizeSymbol_comma)
  show ?thesis
    using same[of r r] same[OF c1] same[OF c1[symmetric]] by blast
qed


theorem lookupRawSymbol_identity_witness:
  "fst (lookupRawSymbol (Some ''_ZN3Foo3barEv,_ZN3Foo3bazEv'') (JBool True) None
         (kb_run [SearchDone 0 []]
            (snd (lookupRawSymbol (Some ''_ZN3Foo3barEv'') (JBool True) None new_KnowledgeBase))))
     = 0"
proof -
  have "fst (lookupRawSymbol (Some ''_ZN3Foo3barEv'') (JBool True) None new_KnowledgeBase) = 0"
    by (simp add: lookupRawSymbol_def new_KnowledgeBase_def normalizeSymbol_def Let_def)
  thus ?thesis
    using lookupRawSymbol_identity[of "Some ''_ZN3Foo3barEv''" "JBool True" None
            "[SearchDone 0 []]" "JBool True" None new_KnowledgeBase
            "''_ZN3Foo3barEv''" "''_ZN3Foo3bazEv''"]
    by simp
qed


section \<open>The hop clamp\<close>

text \<open>
  A recorded level is in order when it is not a number above 2; \<open>false\<close> (never
  analyzed) and \<open>NaN\<close> are no such number.
\<close>

definition level_ok :: "jsval \<Rightarrow> bool" where
  "level_ok v = (case toNumber v of None \<Rightarrow> True | Some n \<Rightarrow> n \<le> 2)"

definition levels_clamped :: "knowledge_base \<Rightarrow> bool" where
  "levels_clamped kb = list_all (\<lambda>si. level_ok (analyzed si)) (symbols kb)"

lemma level_ok_min2 [simp]: "level_ok (math_min2 h)"
  by (simp add: level_ok_def math_min2_def split: option.splits)

lemma levels_clamped_nth:
  "levels_clamped kb \<longleftrightarrow> (\<forall>i < length (symbols kb). level_ok (analyzed (symbols kb ! i)))"
  by (simp add: levels_clamped_def list_all_length)

lemma levels_update_symbol:
  "levels_clamped kb \<Longrightarrow> level_ok (analyzed (symbols kb ! s)) \<longrightarrow> level_ok (analyzed (f (symbols kb ! s)))
    \<Longrightarrow> levels_clamped (update_symbol s f kb)"
  by (simp add: levels_clamped_nth update_symbol_nth)

lemma levels_ensure:
  assumes a: "levels_clamped kb"
  shows "levels_clamped (ensureSymbolAnalysis s h kb)"
proof (rule ensure_preserves(1)[where P = levels_clamped, OF _ _ a], goal_cases)
  case (1 s h kb)
  then show ?case by (simp add: set_analyzed_def levels_update_symbol)
next
  case (2 s h kb)
  have "levels_clamped (update_symbol s (\<lambda>si. si\<lparr>analyzing := True\<rparr>) kb)"
    by (rule levels_update_symbol[OF 2(1)]) simp
  then show ?case by (simp add: start_analysis_def levels_clamped_def)
qed

lemma levels_lookup:
  "levels_clamped kb \<Longrightarrow> levels_clamped (snd (lookupRawSymbol r d p kb))"
proof -
  assume a: "levels_clamped kb"
  have u: "levels_clamped (updatePrettyNameFrom x p kb)" for x
    unfolding updatePrettyNameFrom_def by (rule levels_update_symbol[OF a]) simp
  have n: "levels_clamped (kb\<lparr>symbols := symbols kb @ [new_SymbolInfo k p],
                        symbolsByRawName := (symbolsByRawName kb)(k \<mapsto> x)\<rparr>)" for k x
    using a by (simp add: levels_clamped_def new_SymbolInfo_def level_ok_def)
  show ?thesis
    unfolding lookupRawSymbol_def Let_def
    using a u n by (simp add: levels_ensure split: option.splits)
qed

text \<open>
  A property that survives \<open>lookupRawSymbol\<close> and the addition of an edge survives the
  processing of a whole search result.
\<close>

lemma analyze_preserves:
  assumes lk: "\<And>r d p kb. P kb \<Longrightarrow> P (snd (lookupRawSymbol r d p kb))"
      and eo: "\<And>a b kb. P kb \<Longrightarrow> P (add_outEdge a b kb)"
      and ei: "\<And>a b kb. P kb \<Longrightarrow> P (add_inEdge a b kb)"
  shows "P kb \<Longrightarrow> P (analyzeSymbol_resume s h sem kb)"
proof -
  have c: "P (consume_one s h ci k)" if "P k" for ci k
    using lk[OF that, of "normalizeSymbol (c_sym ci)" "js_minus1 h" "c_pretty ci"]
    by (auto simp: consume_one_def split: prod.splits intro!: eo ei)
  have u: "P (use_one s h lr k)" if "P k" for lr k
    using lk[OF that, of "normalizeSymbol (contextsym lr)" "js_minus1 h" "context_pretty lr"] that
    by (auto simp: use_one_def split: prod.splits intro!: eo ei)
  have g: "P (use_group s h gr k)" if "P k" for gr k
    using that unfolding use_group_def
    by (auto split: prod.splits intro!: for_of_preserves[where P = P] u)
  have e: "P (analyze_entry s h r k)" if "P k" for r k
    using that unfolding analyze_entry_def Let_def
    by (auto split: prod.splits intro!: for_of_preserves[where P = P] g c)
  show "P kb \<Longrightarrow> P (analyzeSymbol_resume s h sem kb)"
    unfolding analyzeSymbol_resume_def by (rule for_of_preserves[where P = P]) (rule e)
qed

lemma levels_resume:
  assumes a: "levels_clamped kb"
  shows "levels_clamped (analyzeSymbol_resume s h sem kb)"
proof (rule analyze_preserves[where P = levels_clamped, OF _ _ _ a], goal_cases)
  case (1 r d p kb)
  then show ?case by (rule levels_lookup)
next
  case (2 a b kb)
  show ?case unfolding add_outEdge_def by (rule levels_update_symbol[OF 2]) simp
next
  case (3 a b kb)
  show ?case unfolding add_inEdge_def by (rule levels_update_symbol[OF 3]) simp
qed

lemma levels_finish:
  "levels_clamped kb \<Longrightarrow> levels_clamped (finish_analysis s h kb)"
proof -
  assume a: "levels_clamped kb"
  have "levels_clamped (update_symbol s (\<lambda>si. si\<lparr>analyzing := False, analyzed := math_min2 h\<rparr>) kb)"
    by (rule levels_update_symbol[OF a]) simp
  thus ?thesis by (simp add: finish_analysis_def levels_clamped_def)
qed

lemma levels_searchDone:
  "levels_clamped kb \<Longrightarrow> levels_clamped (searchDone i sem kb)"
proof -
  assume a: "levels_clamped kb"
  have "levels_clamped (finish_analysis s h (analyzeSymbol_resume s h sem kb))" for s h
    by (intro levels_finish levels_resume a)
  hence "levels_clamped ((finish_analysis s h (analyzeSymbol_resume s h sem kb))\<lparr>inflight := fl\<rparr>)" for s h fl
    by (simp add: levels_clamped_def)
  thus ?thesis using a
    by (simp add: searchDone_def complete_analysis_def Let_def)
qed

lemma levels_step: "levels_clamped kb \<Longrightarrow> levels_clamped (kb_step e kb)"
  by (cases e) (simp_all add: levels_lookup levels_ensure levels_searchDone)

lemma levels_run: "levels_clamped kb \<Longrightarrow> levels_clamped (kb_run evs kb)"
  unfolding kb_run_def by (rule for_of_preserves[where P = levels_clamped]) (rule levels_step)

lemma ensure_length [simp]:
  "length (symbols (ensureSymbolAnalysis s h kb)) = length (symbols kb)"
  by (rule ensure_preserves(1)[where P = "\<lambda>k. length (symbols k) = length (symbols kb)"])
     (simp_all add: set_analyzed_def start_analysis_def)


lemma lookup_length: "length (symbols kb) \<le> length (symbols (snd (lookupRawSymbol r d p kb)))"
  unfolding lookupRawSymbol_def Let_def
  by (simp add: ensure_length updatePrettyNameFrom_def split: option.splits)

lemma resume_length: "length (symbols kb) \<le> length (symbols (analyzeSymbol_resume s h sem kb))"
proof -
  have "n \<le> length (symbols (analyzeSymbol_resume s h sem kb))" if n: "n \<le> length (symbols kb)" for n
  proof (rule analyze_preserves[where P = "\<lambda>k. n \<le> length (symbols k)", OF _ _ _ n], goal_cases)
    case (1 r d p kb)
    then show ?case using lookup_length[of kb r d p] by simp
  qed (simp_all add: add_outEdge_def add_inEdge_def)
  thus ?thesis by simp
qed

lemma searchDone_level:
  assumes "i < length (inflight kb)" "inflight kb ! i = (s, h)" "s < length (symbols kb)"
  shows "analyzed (symbols (searchDone i sem kb) ! s) = math_min2 h"
  using assms resume_length[of kb s h sem]
  by (simp add: searchDone_def complete_analysis_def Let_def finish_analysis_def update_symbol_nth)


text \<open>
  C5. Hop clamp: no event records an analyzed level above 2. If the levels of a knowledge
  base are at most 2, they still are after any sequence of lookups, analysis requests
  and search completions; the level stored when the analysis of a symbol completes is
  \<open>Math.min(2, analyzeHops)\<close> of the request, which for a number \<open>n\<close> is the
  smaller of 2 and \<open>n\<close>.
\<close>

theorem analyzed_level_clamped:
  "levels_clamped kb \<Longrightarrow>
     levels_clamped (kb_run evs kb)
   \<and> (i < length (inflight kb) \<and> inflight kb ! i = (s, h) \<and> s < length (symbols kb) \<longrightarrow>
        analyzed (symbols (searchDone i sem kb) ! s) = math_min2 h)
   \<and> math_min2 (JNum n) = JNum (min 2 n)"
  by (simp add: levels_run searchDone_level math_min2_def)

text \<open>A knowledge base in which one symbol was looked up with a hop budget of 10.\<close>

definition kb_hops10 :: knowledge_base where
  "kb_hops10 = kb_run [Lookup (Some ''_ZN3Foo3barEv'') (JNum 10) None] new_KnowledgeBase"

theorem analyzed_level_clamped_witness:
  "levels_clamped kb_hops10
   \<and> inflight kb_hops10 ! 0 = (0, JNum 10)
   \<and> levels_clamped (kb_run [SearchDone 0 []] kb_hops10)
   \<and> analyzed (symbols (searchDone 0 [] kb_hops10) ! 0) = JNum 2"
proof -
  have 1: "levels_clamped kb_hops10" by code_simp
  have 2: "0 < length (inflight kb_hops10) \<and> inflight kb_hops10 ! 0 = (0, JNum 10) \<and> 0 < length (symbols kb_hops10)"
    by code_simp
  have 3: "math_min2 (JNum 10) = JNum 2" by code_simp
  show ?thesis
    using analyzed_level_clamped[OF 1, of "[SearchDone 0 []]" 0 0 "JNum 10" "[]" 10] 1 2 3
    by simp
qed



section \<open>Edge mirroring\<close>

text \<open>
  Every reference in an edge set is a symbol of the knowledge base, and \<open>b\<close> is in
  the out-edges of \<open>a\<close> exactly when \<open>a\<close> is in the in-edges of \<open>b\<close>.
\<close>

definition edges_valid :: "knowledge_base \<Rightarrow> bool" where
  "edges_valid kb =
     list_all (\<lambda>si. list_all (\<lambda>b. b < length (symbols kb)) (outEdges si)
                  \<and> list_all (\<lambda>b. b < length (symbols kb)) (inEdges si)) (symbols kb)"

definition edges_mirrored :: "knowledge_base \<Rightarrow> bool" where
  "edges_mirrored kb =
     list_all (\<lambda>a. list_all (\<lambda>b. (b \<in> set (outEdges (symbols kb ! a)))
                                   = (a \<in> set (inEdges (symbols kb ! b))))
                       [0..<length (symbols kb)])
              [0..<length (symbols kb)]"

text \<open>
  The references held by \<open>symbolsByRawName\<close> and by the suspended calls are symbols
  of the knowledge base.
\<close>

definition refs_valid :: "knowledge_base \<Rightarrow> bool" where
  "refs_valid kb =
     ((\<forall>k a. symbolsByRawName kb k = Some a \<longrightarrow> a < length (symbols kb))
      \<and> list_all (\<lambda>(s, h). s < length (symbols kb)) (inflight kb))"

definition kb_wf :: "knowledge_base \<Rightarrow> bool" where
  "kb_wf kb = (refs_valid kb \<and> edges_valid kb \<and> edges_mirrored kb)"

text \<open>The edge sets as sets, and the two edge properties on plain set-valued functions.\<close>

definition outs :: "knowledge_base \<Rightarrow> nat \<Rightarrow> nat set" where
  "outs kb a = set (outEdges (symbols kb ! a))"

definition ins :: "knowledge_base \<Rightarrow> nat \<Rightarrow> nat set" where
  "ins kb a = set (inEdges (symbols kb ! a))"

definition graph_ok :: "nat \<Rightarrow> (nat \<Rightarrow> nat set) \<Rightarrow> (nat \<Rightarrow> nat set) \<Rightarrow> bool" where
  "graph_ok n out inn =
     ((\<forall>a<n. \<forall>b \<in> out a. b < n) \<and> (\<forall>a<n. \<forall>b \<in> inn a. b < n)
      \<and> (\<forall>a<n. \<forall>b<n. (b \<in> out a) = (a \<in> inn b)))"

lemma edges_valid_outs_ins:
  "edges_valid kb \<longleftrightarrow>
     (\<forall>a < length (symbols kb). \<forall>b \<in> outs kb a. b < length (symbols kb))
   \<and> (\<forall>a < length (symbols kb). \<forall>b \<in> ins kb a. b < length (symbols kb))"
proof -
  have "edges_valid kb \<longleftrightarrow>
     (\<forall>a. a < length (symbols kb) \<longrightarrow>
        (\<forall>b \<in> set (outEdges (symbols kb ! a)). b < length (symbols kb))
      \<and> (\<forall>b \<in> set (inEdges (symbols kb ! a)). b < length (symbols kb)))"
    unfolding edges_valid_def list_all_iff
    by (rule all_set_conv_all_nth)
  thus ?thesis unfolding outs_def ins_def by blast
qed

lemma edges_mirrored_outs_ins:
  "edges_mirrored kb \<longleftrightarrow>
     (\<forall>a < length (symbols kb). \<forall>b < length (symbols kb). (b \<in> outs kb a) = (a \<in> ins kb b))"
  by (simp add: edges_mirrored_def list_all_iff outs_def ins_def Ball_def)

lemma edges_graph_ok:
  "(edges_valid kb \<and> edges_mirrored kb) = graph_ok (length (symbols kb)) (outs kb) (ins kb)"
  unfolding edges_valid_outs_ins edges_mirrored_outs_ins graph_ok_def by (simp only: conj_assoc)

lemma kb_wf_graph:
  "kb_wf kb = (refs_valid kb \<and> graph_ok (length (symbols kb)) (outs kb) (ins kb))"
  by (simp add: kb_wf_def edges_graph_ok[symmetric])

lemma graph_ok_cong:
  assumes g: "graph_ok n out inn"
      and o: "\<And>a. a < n \<Longrightarrow> out' a = out a"
      and i: "\<And>a. a < n \<Longrightarrow> inn' a = inn a"
  shows "graph_ok n out' inn'"
  unfolding graph_ok_def
proof (intro conjI allI impI ballI)
  fix a b assume "a < n" "b \<in> out' a"
  thus "b < n" using g o[of a] unfolding graph_ok_def by blast
next
  fix a b assume "a < n" "b \<in> inn' a"
  thus "b < n" using g i[of a] unfolding graph_ok_def by blast
next
  fix a b assume "a < n" "b < n"
  thus "(b \<in> out' a) = (a \<in> inn' b)" using g o[of a] i[of b] unfolding graph_ok_def by blast
qed

lemma graph_ok_D:
  assumes "graph_ok n out inn"
  shows "a < n \<Longrightarrow> b \<in> out a \<Longrightarrow> b < n"
    and "a < n \<Longrightarrow> b \<in> inn a \<Longrightarrow> b < n"
    and "a < n \<Longrightarrow> b < n \<Longrightarrow> (b \<in> out a) = (a \<in> inn b)"
  using assms unfolding graph_ok_def by blast+

lemma graph_ok_grow:
  assumes g: "graph_ok n out inn" and o: "out' n = {}" and i: "inn' n = {}"
    and oo: "\<And>a. a < n \<Longrightarrow> out' a = out a" and ii: "\<And>a. a < n \<Longrightarrow> inn' a = inn a"
  shows "graph_ok (Suc n) out' inn'"
  unfolding graph_ok_def
proof (intro conjI allI impI ballI)
  fix x y assume x: "x < Suc n" and y: "y \<in> out' x"
  show "y < Suc n"
  proof (cases "x = n")
    case True thus ?thesis using o y by blast
  next
    case False
    hence xn: "x < n" using x by arith
    hence "y \<in> out x" using oo[OF xn] y by blast
    hence "y < n" using graph_ok_D(1)[OF g xn] by blast
    thus ?thesis by arith
  qed
next
  fix x y assume x: "x < Suc n" and y: "y \<in> inn' x"
  show "y < Suc n"
  proof (cases "x = n")
    case True thus ?thesis using i y by blast
  next
    case False
    hence xn: "x < n" using x by arith
    hence "y \<in> inn x" using ii[OF xn] y by blast
    hence "y < n" using graph_ok_D(2)[OF g xn] by blast
    thus ?thesis by arith
  qed
next
  fix x y assume x: "x < Suc n" and y: "y < Suc n"
  show "(y \<in> out' x) = (x \<in> inn' y)"
  proof (cases "x = n")
    case xn: True
    have "n \<notin> inn' y"
    proof (cases "y = n")
      case True thus ?thesis using i by blast
    next
      case False
      hence yn: "y < n" using y by arith
      have "n \<notin> inn y" using graph_ok_D(2)[OF g yn, of n] by blast
      thus ?thesis using ii[OF yn] by blast
    qed
    thus ?thesis using xn o by blast
  next
    case False
    hence xn: "x < n" using x by arith
    show ?thesis
    proof (cases "y = n")
      case True
      have "n \<notin> out x" using graph_ok_D(1)[OF g xn, of n] by blast
      hence "n \<notin> out' x" using oo[OF xn] by blast
      thus ?thesis using True i by blast
    next
      case False
      hence yn: "y < n" using y by arith
      show ?thesis using graph_ok_D(3)[OF g xn yn] oo[OF xn] ii[OF yn] by blast
    qed
  qed
qed

lemma graph_ok_edge:
  assumes g: "graph_ok n out inn" and a: "a < n" and b: "b < n"
    and oa: "out' a = insert b (out a)" and oo: "\<And>x. x \<noteq> a \<Longrightarrow> out' x = out x"
    and ib: "inn' b = insert a (inn b)" and ii: "\<And>x. x \<noteq> b \<Longrightarrow> inn' x = inn x"
  shows "graph_ok n out' inn'"
  unfolding graph_ok_def
proof (intro conjI allI impI ballI)
  fix x y assume x: "x < n" and y: "y \<in> out' x"
  show "y < n"
  proof (cases "x = a")
    case True
    hence "y = b \<or> y \<in> out a" using oa y by blast
    thus ?thesis using b graph_ok_D(1)[OF g a] by blast
  next
    case False
    thus ?thesis using oo[OF False] y graph_ok_D(1)[OF g x] by blast
  qed
next
  fix x y assume x: "x < n" and y: "y \<in> inn' x"
  show "y < n"
  proof (cases "x = b")
    case True
    hence "y = a \<or> y \<in> inn b" using ib y by blast
    thus ?thesis using a graph_ok_D(2)[OF g b] by blast
  next
    case False
    thus ?thesis using ii[OF False] y graph_ok_D(2)[OF g x] by blast
  qed
next
  fix x y assume x: "x < n" and y: "y < n"
  have m: "(y \<in> out x) = (x \<in> inn y)" by (rule graph_ok_D(3)[OF g x y])
  show "(y \<in> out' x) = (x \<in> inn' y)"
  proof (cases "x = a")
    case xa: True
    show ?thesis
    proof (cases "y = b")
      case True
      thus ?thesis using xa oa ib by blast
    next
      case False
      thus ?thesis using xa oa ii[OF False] m by blast
    qed
  next
    case xa: False
    show ?thesis
    proof (cases "y = b")
      case True
      thus ?thesis using xa oo[OF xa] ib m by blast
    next
      case False
      thus ?thesis using oo[OF xa] ii[OF False] m by blast
    qed
  qed
qed

lemma kb_wf_new: "kb_wf new_KnowledgeBase"
  by (simp add: kb_wf_def refs_valid_def edges_valid_def edges_mirrored_def new_KnowledgeBase_def)

lemma outs_update_symbol:
  "outs (update_symbol s f kb) a =
     (if a = s \<and> s < length (symbols kb) then set (outEdges (f (symbols kb ! s))) else outs kb a)"
  by (simp add: outs_def update_symbol_nth)

lemma ins_update_symbol:
  "ins (update_symbol s f kb) a =
     (if a = s \<and> s < length (symbols kb) then set (inEdges (f (symbols kb ! s))) else ins kb a)"
  by (simp add: ins_def update_symbol_nth)

lemma refs_valid_update_symbol [simp]:
  "refs_valid (update_symbol s f kb) = refs_valid kb"
  by (simp add: refs_valid_def)

lemma wf_update_symbol_same:
  assumes w: "kb_wf kb"
      and o: "outEdges (f (symbols kb ! s)) = outEdges (symbols kb ! s)"
      and i: "inEdges (f (symbols kb ! s)) = inEdges (symbols kb ! s)"
  shows "kb_wf (update_symbol s f kb)"
proof -
  have g: "graph_ok (length (symbols kb)) (outs kb) (ins kb)" and r: "refs_valid kb"
    using w by (simp_all add: kb_wf_graph)
  have "graph_ok (length (symbols kb)) (outs (update_symbol s f kb)) (ins (update_symbol s f kb))"
    by (rule graph_ok_cong[OF g]) (auto simp: outs_def ins_def update_symbol_nth o i)
  thus ?thesis using r by (simp add: kb_wf_graph)
qed

lemma kb_wf_fields:
  assumes "kb_wf kb" "symbols k' = symbols kb" "symbolsByRawName k' = symbolsByRawName kb"
          "list_all (\<lambda>(s, h). s < length (symbols kb)) (inflight k')"
  shows "kb_wf k'"
  using assms
  by (simp add: kb_wf_def refs_valid_def edges_valid_def edges_mirrored_def)

lemma wf_inflight_D:
  "kb_wf kb \<Longrightarrow> list_all (\<lambda>(s, h). s < length (symbols kb)) (inflight kb)"
  by (simp add: kb_wf_def refs_valid_def)

lemma wf_start:
  assumes w: "kb_wf kb" and s: "s < length (symbols kb)"
  shows "kb_wf (start_analysis s h kb)"
proof -
  have 1: "kb_wf (update_symbol s (\<lambda>si. si\<lparr>analyzing := True\<rparr>) kb)" (is "kb_wf ?k")
    by (rule wf_update_symbol_same[OF w]) simp_all
  show ?thesis
    by (rule kb_wf_fields[OF 1]) (use s wf_inflight_D[OF w] in \<open>simp_all add: start_analysis_def\<close>)
qed

lemma wf_ensure:
  assumes a: "kb_wf kb"
  shows "kb_wf (ensureSymbolAnalysis s h kb)"
proof (rule ensure_preserves(1)[where P = kb_wf, OF _ _ a], goal_cases)
  case (1 s h kb)
  show ?case unfolding set_analyzed_def by (rule wf_update_symbol_same[OF 1(1)]) simp_all
next
  case (2 s h kb)
  then show ?case by (simp add: wf_start)
qed


lemma outs_append_new:
  "outs (kb\<lparr>symbols := symbols kb @ [new_SymbolInfo k p], symbolsByRawName := m\<rparr>) a =
     (if a < length (symbols kb) then outs kb a else if a = length (symbols kb) then {} else
        set (outEdges ((symbols kb @ [new_SymbolInfo k p]) ! a)))"
  by (simp add: outs_def nth_append new_SymbolInfo_def)

lemma ins_append_new:
  "ins (kb\<lparr>symbols := symbols kb @ [new_SymbolInfo k p], symbolsByRawName := m\<rparr>) a =
     (if a < length (symbols kb) then ins kb a else if a = length (symbols kb) then {} else
        set (inEdges ((symbols kb @ [new_SymbolInfo k p]) ! a)))"
  by (simp add: ins_def nth_append new_SymbolInfo_def)

lemma wf_alloc:
  assumes w: "kb_wf kb"
  shows "kb_wf (kb\<lparr>symbols := symbols kb @ [new_SymbolInfo k p],
                   symbolsByRawName := (symbolsByRawName kb)(k \<mapsto> length (symbols kb))\<rparr>)"
    (is "kb_wf ?k'")
proof -
  have g: "graph_ok (length (symbols kb)) (outs kb) (ins kb)" and r: "refs_valid kb"
    using w by (simp_all add: kb_wf_graph)
  have g': "graph_ok (Suc (length (symbols kb))) (outs ?k') (ins ?k')"
    by (rule graph_ok_grow[OF g]) (simp_all add: outs_append_new ins_append_new)
  have r': "refs_valid ?k'"
    using r by (auto simp: refs_valid_def list_all_iff less_Suc_eq)
  show ?thesis using g' r' by (simp add: kb_wf_graph)
qed

lemma wf_lookup:
  assumes a: "kb_wf kb"
  shows "kb_wf (snd (lookupRawSymbol r d p kb))"
    and "fst (lookupRawSymbol r d p kb) < length (symbols (snd (lookupRawSymbol r d p kb)))"
proof -
  have u: "kb_wf (updatePrettyNameFrom x p kb)" for x
    unfolding updatePrettyNameFrom_def by (rule wf_update_symbol_same[OF a]) simp_all
  have c: "x < length (symbols kb)" if "symbolsByRawName kb (normalizeSymbol r) = Some x" for x
    using a that by (auto simp: kb_wf_def refs_valid_def)
  show "kb_wf (snd (lookupRawSymbol r d p kb))"
    unfolding lookupRawSymbol_def Let_def
    using a u by (simp add: wf_ensure wf_alloc split: option.splits)
  show "fst (lookupRawSymbol r d p kb) < length (symbols (snd (lookupRawSymbol r d p kb)))"
    unfolding lookupRawSymbol_def Let_def
    using c by (simp add: updatePrettyNameFrom_def split: option.splits)
qed

lemma set_set_add [simp]: "set (set_add x xs) = insert x (set xs)"
  by (auto simp: set_add_def)

lemma outs_add_outEdge:
  "a < length (symbols kb) \<Longrightarrow>
   outs (add_outEdge a b kb) x = (if x = a then insert b (outs kb a) else outs kb x)"
  by (simp add: outs_def add_outEdge_def update_symbol_nth)

lemma ins_add_outEdge: "ins (add_outEdge a b kb) x = ins kb x"
  by (simp add: ins_def add_outEdge_def update_symbol_nth)

lemma ins_add_inEdge:
  "a < length (symbols kb) \<Longrightarrow>
   ins (add_inEdge a b kb) x = (if x = a then insert b (ins kb a) else ins kb x)"
  by (simp add: ins_def add_inEdge_def update_symbol_nth)

lemma outs_add_inEdge: "outs (add_inEdge a b kb) x = outs kb x"
  by (simp add: outs_def add_inEdge_def update_symbol_nth)

lemma add_edge_fields [simp]:
  "length (symbols (add_outEdge a b kb)) = length (symbols kb)"
  "length (symbols (add_inEdge a b kb)) = length (symbols kb)"
  "refs_valid (add_outEdge a b kb) = refs_valid kb"
  "refs_valid (add_inEdge a b kb) = refs_valid kb"
  by (simp_all add: add_outEdge_def add_inEdge_def)

lemma wf_edge_pair:
  assumes w: "kb_wf kb" and a: "a < length (symbols kb)" and b: "b < length (symbols kb)"
  shows "kb_wf (add_inEdge b a (add_outEdge a b kb))"
    and "kb_wf (add_outEdge a b (add_inEdge b a kb))"
proof -
  have g: "graph_ok (length (symbols kb)) (outs kb) (ins kb)" and r: "refs_valid kb"
    using w by (simp_all add: kb_wf_graph)
  have "graph_ok (length (symbols kb)) (outs (add_inEdge b a (add_outEdge a b kb)))
           (ins (add_inEdge b a (add_outEdge a b kb)))"
    by (rule graph_ok_edge[OF g a b])
       (simp_all add: outs_add_inEdge outs_add_outEdge ins_add_inEdge ins_add_outEdge a b)
  thus "kb_wf (add_inEdge b a (add_outEdge a b kb))" using r by (simp add: kb_wf_graph)
  have "graph_ok (length (symbols kb)) (outs (add_outEdge a b (add_inEdge b a kb)))
           (ins (add_outEdge a b (add_inEdge b a kb)))"
    by (rule graph_ok_edge[OF g a b])
       (simp_all add: outs_add_inEdge outs_add_outEdge ins_add_inEdge ins_add_outEdge a b)
  thus "kb_wf (add_outEdge a b (add_inEdge b a kb))" using r by (simp add: kb_wf_graph)
qed


lemma resume_preserves:
  assumes c: "\<And>ci k. P k \<Longrightarrow> P (consume_one s h ci k)"
      and u: "\<And>lr k. P k \<Longrightarrow> P (use_one s h lr k)"
      and p: "P kb"
  shows "P (analyzeSymbol_resume s h sem kb)"
proof -
  have g: "P (use_group s h gr k)" if "P k" for gr k
    using that unfolding use_group_def
    by (auto split: prod.splits intro!: for_of_preserves[where P = P] u)
  have e: "P (analyze_entry s h r k)" if "P k" for r k
    using that unfolding analyze_entry_def Let_def
    by (auto split: prod.splits intro!: for_of_preserves[where P = P] g c)
  show ?thesis
    unfolding analyzeSymbol_resume_def by (rule for_of_preserves[where P = P]) (rule e, assumption, rule p)
qed

lemma wf_consume_one:
  assumes w: "kb_wf kb" and s: "s < length (symbols kb)"
  shows "kb_wf (consume_one s h ci kb) \<and> s < length (symbols (consume_one s h ci kb))"
proof -
  obtain c kb1 where l: "lookupRawSymbol (normalizeSymbol (c_sym ci)) (js_minus1 h) (c_pretty ci) kb = (c, kb1)"
    by (cases "lookupRawSymbol (normalizeSymbol (c_sym ci)) (js_minus1 h) (c_pretty ci) kb")
  have w1: "kb_wf kb1" and c: "c < length (symbols kb1)"
    using wf_lookup[OF w, of "normalizeSymbol (c_sym ci)" "js_minus1 h" "c_pretty ci"] l by simp_all
  have s1: "s < length (symbols kb1)"
    using lookup_length[of kb "normalizeSymbol (c_sym ci)" "js_minus1 h" "c_pretty ci"] l s by simp
  show ?thesis
    using wf_edge_pair(1)[OF w1 s1 c] s1 by (simp add: consume_one_def l)
qed

lemma wf_use_one:
  assumes w: "kb_wf kb" and s: "s < length (symbols kb)"
  shows "kb_wf (use_one s h lr kb) \<and> s < length (symbols (use_one s h lr kb))"
proof (cases "str_truthy (contextsym lr)")
  case False
  thus ?thesis using w s by (simp add: use_one_def)
next
  case True
  obtain c kb1 where l: "lookupRawSymbol (normalizeSymbol (contextsym lr)) (js_minus1 h) (context_pretty lr) kb = (c, kb1)"
    by (cases "lookupRawSymbol (normalizeSymbol (contextsym lr)) (js_minus1 h) (context_pretty lr) kb")
  have w1: "kb_wf kb1" and c: "c < length (symbols kb1)"
    using wf_lookup[OF w, of "normalizeSymbol (contextsym lr)" "js_minus1 h" "context_pretty lr"] l by simp_all
  have s1: "s < length (symbols kb1)"
    using lookup_length[of kb "normalizeSymbol (contextsym lr)" "js_minus1 h" "context_pretty lr"] l s by simp
  show ?thesis
    using wf_edge_pair(2)[OF w1 c s1] s1 True by (simp add: use_one_def l)
qed

lemma wf_resume:
  assumes w: "kb_wf kb" and s: "s < length (symbols kb)"
  shows "kb_wf (analyzeSymbol_resume s h sem kb)"
proof -
  have "kb_wf (analyzeSymbol_resume s h sem kb) \<and> s < length (symbols (analyzeSymbol_resume s h sem kb))"
    by (rule resume_preserves[where P = "\<lambda>k. kb_wf k \<and> s < length (symbols k)"])
       (simp_all add: wf_consume_one wf_use_one w s)
  thus ?thesis by simp
qed

lemma wf_finish:
  assumes w: "kb_wf kb"
  shows "kb_wf (finish_analysis s h kb)"
proof -
  have 1: "kb_wf (update_symbol s (\<lambda>si. si\<lparr>analyzing := False, analyzed := math_min2 h\<rparr>) kb)"
    by (rule wf_update_symbol_same[OF w]) simp_all
  show ?thesis
    by (rule kb_wf_fields[OF 1]) (use wf_inflight_D[OF w] in \<open>simp_all add: finish_analysis_def\<close>)
qed

lemma wf_drop_inflight:
  assumes w: "kb_wf kb"
  shows "kb_wf (kb\<lparr>inflight := take i (inflight kb) @ drop (Suc i) (inflight kb)\<rparr>)"
proof (rule kb_wf_fields[OF w])
  have "set (take i (inflight kb) @ drop (Suc i) (inflight kb)) \<subseteq> set (inflight kb)"
    using set_take_subset[of i "inflight kb"] set_drop_subset[of "Suc i" "inflight kb"] by auto
  thus "list_all (\<lambda>(s, h). s < length (symbols kb))
          (inflight (kb\<lparr>inflight := take i (inflight kb) @ drop (Suc i) (inflight kb)\<rparr>))"
    using wf_inflight_D[OF w] unfolding list_all_iff by auto
qed simp_all

lemma wf_searchDone:
  assumes w: "kb_wf kb"
  shows "kb_wf (searchDone i sem kb)"
proof (cases "i < length (inflight kb)")
  case False
  thus ?thesis using w by (simp add: searchDone_def)
next
  case True
  obtain s h where sh: "inflight kb ! i = (s, h)" by (cases "inflight kb ! i")
  have "(s, h) \<in> set (inflight kb)" using True sh by (metis nth_mem)
  hence s: "s < length (symbols kb)" using wf_inflight_D[OF w] unfolding list_all_iff by auto
  have "kb_wf (finish_analysis s h (analyzeSymbol_resume s h sem kb))"
    by (intro wf_finish wf_resume w s)
  hence "kb_wf ((finish_analysis s h (analyzeSymbol_resume s h sem kb))
           \<lparr>inflight := take i (inflight (finish_analysis s h (analyzeSymbol_resume s h sem kb)))
                        @ drop (Suc i) (inflight (finish_analysis s h (analyzeSymbol_resume s h sem kb)))\<rparr>)"
    by (rule wf_drop_inflight)
  thus ?thesis using True sh by (simp add: searchDone_def complete_analysis_def Let_def)
qed

lemma wf_step: "kb_wf kb \<Longrightarrow> kb_wf (kb_step e kb)"
  by (cases e) (simp_all add: wf_lookup wf_ensure wf_searchDone)

lemma wf_run: "kb_wf kb \<Longrightarrow> kb_wf (kb_run evs kb)"
  unfolding kb_run_def by (rule for_of_preserves[where P = kb_wf]) (rule wf_step)

text \<open>
  C4. Edge mirroring: in every state that a knowledge base reaches from its creation,
  through any lookups, analysis requests and search completions with any search
  results, the edges are mirrored: for all symbols \<open>a\<close> and \<open>b\<close>, \<open>b\<close> is in
  \<open>a.outEdges\<close> if and only if \<open>a\<close> is in \<open>b.inEdges\<close>, and every edge ends at
  a symbol of the knowledge base. Both the \<open>consumes\<close> loop and the \<open>uses\<close> loop of
  \<open>_analyzeSymbol\<close> add their two halves of an edge together.
\<close>

theorem edge_mirroring:
  "edges_valid (kb_run evs new_KnowledgeBase) \<and> edges_mirrored (kb_run evs new_KnowledgeBase)"
  using wf_run[OF kb_wf_new, of evs] by (simp add: kb_wf_def)

text \<open>
  One symbol analyzed once: the search reports one consumed symbol and one use whose
  calling context is comma-delimited.
\<close>

definition kb_analyzed_once :: knowledge_base where
  "kb_analyzed_once =
     kb_run [Lookup (Some ''_ZN3Foo3barEv'') (JBool True) None,
             SearchDone 0
               [\<lparr>symbol = ''_ZN3Foo3barEv'',
                 consumes = [\<lparr>c_sym = Some ''_ZN3Foo3bazEv'', c_pretty = Some ''Foo::baz''\<rparr>],
                 hits = [(''normal'',
                          [(''uses'', [\<lparr>path = ''dom/Foo.cpp'',
                                         lines = [\<lparr>contextsym = Some ''_ZN3Foo4mainEv,_ZN3Foo4mainEi'',
                                                   context_pretty = Some ''Foo::main''\<rparr>]\<rparr>])])]\<rparr>]]
       new_KnowledgeBase"

theorem edge_mirroring_witness:
  "edges_valid kb_analyzed_once \<and> edges_mirrored kb_analyzed_once
   \<and> map outEdges (symbols kb_analyzed_once) = [[1], [], [0]]
   \<and> map inEdges (symbols kb_analyzed_once) = [[2], [0], []]"
proof -
  have "map outEdges (symbols kb_analyzed_once) = [[1], [], [0]]" by code_simp
  moreover have "map inEdges (symbols kb_analyzed_once) = [[2], [0], []]" by code_simp
  ultimately show ?thesis
    using edge_mirroring[of "[Lookup (Some ''_ZN3Foo3barEv'') (JBool True) None,
             SearchDone 0
               [\<lparr>symbol = ''_ZN3Foo3barEv'',
                 consumes = [\<lparr>c_sym = Some ''_ZN3Foo3bazEv'', c_pretty = Some ''Foo::baz''\<rparr>],
                 hits = [(''normal'',
                          [(''uses'', [\<lparr>path = ''dom/Foo.cpp'',
                                         lines = [\<lparr>contextsym = Some ''_ZN3Foo4mainEv,_ZN3Foo4mainEi'',
                                                   context_pretty = Some ''Foo::main''\<rparr>]\<rparr>])])]\<rparr>]]"]
    unfolding kb_analyzed_once_def by simp
qed



section \<open>The hop budget that a lookup passes on\<close>

lemma lookupRawSymbol_new:
  "symbolsByRawName kb (normalizeSymbol r) = None \<Longrightarrow> truthy d \<Longrightarrow>
   snd (lookupRawSymbol r d p kb) =
     ensureSymbolAnalysis (length (symbols kb)) (if d = JBool True then JNum 1 else d)
       (kb\<lparr>symbols := symbols kb @ [new_SymbolInfo (normalizeSymbol r) p],
           symbolsByRawName := (symbolsByRawName kb)(normalizeSymbol r \<mapsto> length (symbols kb))\<rparr>)"
  by (simp add: lookupRawSymbol_def Let_def)

lemma lookupRawSymbol_cached:
  "symbolsByRawName kb (normalizeSymbol r) = Some s \<Longrightarrow> truthy d \<Longrightarrow>
   snd (lookupRawSymbol r d p kb) =
     ensureSymbolAnalysis s JUndefined
       (if str_truthy p \<and> \<not> str_truthy (prettyName (symbols kb ! s))
        then updatePrettyNameFrom s p kb else kb)"
  by (simp add: lookupRawSymbol_def Let_def)

text \<open>
  C2. The hop budget of a lookup. A first lookup of a raw name with \<open>doAnalyze\<close> equal
  to \<open>true\<close> suspends an analysis with \<open>analyzeHops = 1\<close>, and with
  \<open>doAnalyze = 2\<close> one with \<open>analyzeHops = 2\<close>. When the name is already cached
  (here by an earlier lookup without \<open>doAnalyze\<close>) and not yet analyzed, the same two
  lookups suspend an analysis whose \<open>analyzeHops\<close> is \<open>undefined\<close>: the cached
  branch calls \<open>ensureSymbolAnalysis(symInfo)\<close> without the budget.
\<close>

theorem lookupRawSymbol_cached_hops_undefined:
  "inflight (kb_run [Lookup (Some ''_ZN3Foo3barEv'') (JBool True) None] new_KnowledgeBase)
     = [(0, JNum 1)]
   \<and> inflight (kb_run [Lookup (Some ''_ZN3Foo3barEv'') JUndefined None,
                        Lookup (Some ''_ZN3Foo3barEv'') (JBool True) None] new_KnowledgeBase)
     = [(0, JUndefined)]
   \<and> inflight (kb_run [Lookup (Some ''_ZN3Foo3barEv'') (JNum 2) None] new_KnowledgeBase)
     = [(0, JNum 2)]
   \<and> inflight (kb_run [Lookup (Some ''_ZN3Foo3barEv'') JUndefined None,
                        Lookup (Some ''_ZN3Foo3barEv'') (JNum 2) None] new_KnowledgeBase)
     = [(0, JUndefined)]"
  by code_simp

section \<open>How often a symbol is searched\<close>

text \<open>
  C3. Searches per symbol. While the analysis of a symbol is in flight, a further lookup
  with \<open>doAnalyze\<close> issues no search (first run below: one query after two requests).
  Once the analysis has completed with a clamped level that is falsy, the symbol counts
  as unanalyzed again and the next request searches it a second time. That happens when
  the request came through the cached branch of \<open>lookupRawSymbol\<close> (level \<open>NaN\<close>,
  second run), when the hop argument is an options object as the doodler and the
  diagram sheet pass it (level \<open>NaN\<close>, third run), and when the hop count is 0 (fourth
  run).
\<close>

theorem symbol_searched_twice:
  "searchLog (kb_run [Lookup (Some ''_ZN3Foo3barEv'') JUndefined None,
                      Lookup (Some ''_ZN3Foo3barEv'') (JBool True) None,
                      Lookup (Some ''_ZN3Foo3barEv'') (JBool True) None] new_KnowledgeBase)
     = [''symbol:_ZN3Foo3barEv'']
   \<and> searchLog (kb_run [Lookup (Some ''_ZN3Foo3barEv'') JUndefined None,
                      Lookup (Some ''_ZN3Foo3barEv'') (JBool True) None,
                      SearchDone 0 [],
                      Lookup (Some ''_ZN3Foo3barEv'') (JBool True) None] new_KnowledgeBase)
     = [''symbol:_ZN3Foo3barEv'', ''symbol:_ZN3Foo3barEv'']
   \<and> searchLog (kb_run [Lookup (Some ''_ZN3Foo3barEv'') JUndefined None,
                      Ensure 0 JObject,
                      SearchDone 0 [],
                      Ensure 0 JObject] new_KnowledgeBase)
     = [''symbol:_ZN3Foo3barEv'', ''symbol:_ZN3Foo3barEv'']
   \<and> searchLog (kb_run [Lookup (Some ''_ZN3Foo3barEv'') JUndefined None,
                      Ensure 0 (JNum 0),
                      SearchDone 0 [],
                      Ensure 0 (JNum 0)] new_KnowledgeBase)
     = [''symbol:_ZN3Foo3barEv'', ''symbol:_ZN3Foo3barEv'']"
  by code_simp

section \<open>The edge sanity limit\<close>

text \<open>
  The level bump of \<open>ensureSymbolAnalysis\<close>, as the source has it: the request is
  passed on over an edge set when its size is below \<open>EDGE_SANITY_LIMIT\<close>.
\<close>

lemma ensureSymbolAnalysis_bump:
  assumes "s < length (symbols kb)" "truthy (analyzed (symbols kb ! s))"
          "js_lt (analyzed (symbols kb ! s)) (math_min2 h)"
  shows "ensureSymbolAnalysis s h kb =
     (let kb1 = set_analyzed s (math_min2 h) kb;
          kb2 = (if length (outEdges (symbols kb1 ! s)) < 32
                 then ensureEach (outEdges (symbols kb1 ! s)) (js_minus1 h) kb1 else kb1)
      in (if length (inEdges (symbols kb2 ! s)) < 32
          then ensureEach (inEdges (symbols kb2 ! s)) (js_minus1 h) kb2 else kb2))"
  using assms by (simp add: ensureSymbolAnalysis.simps EDGE_SANITY_LIMIT_def)

text \<open>
  A symbol \<open>hub\<close> analyzed with one hop whose search reports \<open>n\<close> consumed symbols:
  it ends with \<open>n\<close> out-edges at level 1, and the consumed symbols are known but not
  analyzed.
\<close>

definition consumed_names :: "nat \<Rightarrow> consumed_info list" where
  "consumed_names n =
     map (\<lambda>c. \<lparr>c_sym = Some [CHR ''f'', c], c_pretty = None\<rparr>)
       (take n ''abcdefghijklmnopqrstuvwxyzABCDEF'')"

definition kb_fanout :: "nat \<Rightarrow> knowledge_base" where
  "kb_fanout n =
     kb_run [Lookup (Some ''hub'') (JBool True) None,
             SearchDone 0 [\<lparr>symbol = ''hub'', consumes = consumed_names n, hits = []\<rparr>]]
       new_KnowledgeBase"

text \<open>
  C6. The edge sanity limit at exactly 32 edges. Raising \<open>hub\<close> from level 1 to level 2
  with 32 out-edges records the level and passes the request on to none of the 32
  neighbours: no search is issued. With 31 out-edges the same request reaches every
  neighbour, and each of the 31 is searched.
\<close>

theorem edge_limit_32_skipped:
  "length (outEdges (symbols (kb_fanout 32) ! 0)) = 32
   \<and> analyzed (symbols (kb_fanout 32) ! 0) = JNum 1
   \<and> searchLog (ensureSymbolAnalysis 0 (JNum 2) (kb_fanout 32)) = [''symbol:hub'']
   \<and> analyzed (symbols (ensureSymbolAnalysis 0 (JNum 2) (kb_fanout 32)) ! 0) = JNum 2
   \<and> length (outEdges (symbols (kb_fanout 31) ! 0)) = 31
   \<and> length (searchLog (ensureSymbolAnalysis 0 (JNum 2) (kb_fanout 31))) = 32"
  by code_simp

end
